theory Spec2Isabelle
  imports Complex_Main "HOL-Library.Word"
begin

section \<open>Data model of the hand safety monitor\<close>

text \<open>
  The three state constants of \<^verbatim>\<open>HandSafetySystem.__init__\<close>
  (\<^verbatim>\<open>STATE_SAFE = 0\<close>, \<^verbatim>\<open>STATE_WARNING = 1\<close>, \<^verbatim>\<open>STATE_DANGER = 2\<close>).
\<close>

datatype state = STATE_SAFE | STATE_WARNING | STATE_DANGER

text \<open>
  The two exceptions that \<^verbatim>\<open>calculate_logic\<close> can raise, both on line 85:
  \<^verbatim>\<open>OverflowError\<close> when a Python integer operand does not fit the 32-bit type of the
  vertex it is subtracted from, \<^verbatim>\<open>ValueError\<close> when \<^verbatim>\<open>math.sqrt\<close> gets a negative
  number.
\<close>

datatype py_error = OverflowError | ValueError

text \<open>
  The hull that \<^verbatim>\<open>process_frame\<close> hands to \<^verbatim>\<open>calculate_logic\<close> is the array of
  \<^verbatim>\<open>cv2.convexHull\<close>, whose elements are signed 32-bit integers: a vertex
  \<^verbatim>\<open>px, py = point[0]\<close> is a pair of 32-bit words, read as signed numbers by \<^verbatim>\<open>sint\<close>.
  The danger zone \<^verbatim>\<open>rx, ry, rw, rh = rect\<close> is a 4-tuple of Python integers, which are
  unbounded. Arithmetic that mixes the two follows NumPy from version 2 on: the Python
  integer is converted to the 32-bit type, which fails when it is out of range, and the
  operation is then a 32-bit one that wraps around; comparisons are by value.
  \<^verbatim>\<open>math.sqrt\<close> is the square root on the reals, and the integer constants \<^verbatim>\<open>0\<close> and
  \<^verbatim>\<open>99999\<close> that the code returns as a distance are read as the numbers they denote.
  The argument \<^verbatim>\<open>hull\<close> (a reserved word here, so the definitions write \<^verbatim>\<open>hull_arg\<close>
  and \<^verbatim>\<open>hull_pts\<close>) is \<^verbatim>\<open>None\<close> or a sequence of vertices. A result is the tuple
  of the state, the distance, the hand point (a vertex, or the initial \<^verbatim>\<open>(0, 0)\<close>) and
  the point of the box (Python integers or vertex coordinates, kept by their values).
\<close>

type_synonym int32 = "32 word"
type_synonym point = "int32 \<times> int32"
type_synonym rect = "int \<times> int \<times> int \<times> int"
type_synonym hull_points = "point list"
type_synonym result = "state \<times> real \<times> point \<times> (int \<times> int)"

definition res_state :: "result \<Rightarrow> state" where
  "res_state r = fst r"

definition res_distance :: "result \<Rightarrow> real" where
  "res_distance r = fst (snd r)"

definition res_hand_point :: "result \<Rightarrow> point" where
  "res_hand_point r = fst (snd (snd r))"

definition res_box_point :: "result \<Rightarrow> int \<times> int" where
  "res_box_point r = snd (snd (snd r))"

section \<open>calculate\_logic\<close>

text \<open>
  Lines 81 and 82: the closest point of the box to one vertex,
  \<^verbatim>\<open>cl_x = max(rx, min(px, rx + rw))\<close> and \<^verbatim>\<open>cl_y = max(ry, min(py, ry + rh))\<close>.
  \<^verbatim>\<open>rx + rw\<close> is a sum of Python integers and the comparisons are by value, so both
  coordinates are computed exactly.
\<close>

fun closest_box_point :: "rect \<Rightarrow> point \<Rightarrow> int \<times> int" where
  "closest_box_point (rx, ry, rw, rh) (px, py) =
     (max rx (min (sint px) (rx + rw)), max ry (min (sint py) (ry + rh)))"

text \<open>
  The conversion of a Python integer operand to the 32-bit type of the vertex: it raises
  \<^verbatim>\<open>OverflowError\<close> outside the range from \<^verbatim>\<open>-2**31\<close> to \<^verbatim>\<open>2**31 - 1\<close>. (Where
  \<^verbatim>\<open>cl_x\<close> is the vertex coordinate itself, nothing is converted; its value is in range
  and the conversion gives it back.)
\<close>

definition int32_range :: "int \<Rightarrow> bool" where
  "int32_range k \<longleftrightarrow> - (2 ^ 31) \<le> k \<and> k < 2 ^ 31"

definition int32_of_python :: "int \<Rightarrow> py_error + int32" where
  "int32_of_python k = (if int32_range k then Inr (word_of_int k) else Inl OverflowError)"

text \<open>
  Line 85, \<^verbatim>\<open>dist = math.sqrt((px - cl_x) ** 2 + (py - cl_y) ** 2)\<close>: the differences,
  the squares and the sum are 32-bit operations on words, and \<^verbatim>\<open>math.sqrt\<close> raises
  \<^verbatim>\<open>ValueError\<close> when the sum, read as a signed number, is negative.
\<close>

fun dist_to_box :: "rect \<Rightarrow> point \<Rightarrow> py_error + real" where
  "dist_to_box rect (px, py) =
     (case closest_box_point rect (px, py) of
        (cl_x, cl_y) \<Rightarrow>
          (case int32_of_python cl_x of
             Inl e \<Rightarrow> Inl e
           | Inr cx \<Rightarrow>
               (case int32_of_python cl_y of
                  Inl e \<Rightarrow> Inl e
                | Inr cy \<Rightarrow>
                    (let s = (px - cx) ^ 2 + (py - cy) ^ 2 in
                     if sint s < 0 then Inl ValueError
                     else Inr (sqrt (real_of_int (sint s)))))))"

text \<open>
  The loop \<^verbatim>\<open>for point in hull\<close>, lines 77 to 91, on the three variables
  \<^verbatim>\<open>min_dist\<close>, \<^verbatim>\<open>closest_hand_point\<close> and \<^verbatim>\<open>closest_box_point\<close>: they change only
  when \<^verbatim>\<open>dist < min_dist\<close> (the bound variable is written \<^verbatim>\<open>distance\<close>). An
  exception of line 85 ends the loop and the function.
\<close>

fun hull_loop ::
  "rect \<Rightarrow> hull_points \<Rightarrow> real \<times> point \<times> (int \<times> int)
     \<Rightarrow> py_error + (real \<times> point \<times> (int \<times> int))" where
  "hull_loop rect [] acc = Inr acc"
| "hull_loop rect (point # rest) (min_dist, hand_pt, box_pt) =
     (case dist_to_box rect point of
        Inl e \<Rightarrow> Inl e
      | Inr distance \<Rightarrow>
          if distance < min_dist
          then hull_loop rect rest (distance, point, closest_box_point rect point)
          else hull_loop rect rest (min_dist, hand_pt, box_pt))"

text \<open>
  \<^verbatim>\<open>calculate_logic(hull, rect)\<close>: the early return on \<^verbatim>\<open>hull is None\<close>, the loop
  started at \<^verbatim>\<open>min_dist = 99999\<close> with both points \<^verbatim>\<open>(0, 0)\<close>, and the thresholds
  \<^verbatim>\<open>min_dist <= 10\<close>, \<^verbatim>\<open>min_dist < 150\<close>.
\<close>

definition calculate_logic :: "hull_points option \<Rightarrow> rect \<Rightarrow> py_error + result" where
  "calculate_logic hull_arg rect =
     (case hull_arg of
        None \<Rightarrow> Inr (STATE_SAFE, 0, (0, 0), (0, 0))
      | Some points \<Rightarrow>
          (case hull_loop rect points (99999, (0, 0), (0, 0)) of
             Inl e \<Rightarrow> Inl e
           | Inr (min_dist, closest_hand_point, closest_box_pt) \<Rightarrow>
               if min_dist \<le> 10
               then Inr (STATE_DANGER, min_dist, closest_hand_point, closest_box_pt)
               else if min_dist < 150
               then Inr (STATE_WARNING, min_dist, closest_hand_point, closest_box_pt)
               else Inr (STATE_SAFE, min_dist, closest_hand_point, closest_box_pt)))"

text \<open>
  The distance of the specification, for comparison with what line 85 computes: the
  Euclidean distance from a vertex to its closest point of the box, in exact arithmetic.
\<close>

fun euclid_sq :: "rect \<Rightarrow> point \<Rightarrow> int" where
  "euclid_sq rect (px, py) =
     (case closest_box_point rect (px, py) of
        (cl_x, cl_y) \<Rightarrow> (sint px - cl_x)\<^sup>2 + (sint py - cl_y)\<^sup>2)"

definition euclid_dist :: "rect \<Rightarrow> point \<Rightarrow> real" where
  "euclid_dist rect p = sqrt (real_of_int (euclid_sq rect p))"

section \<open>process\_frame\<close>

text \<open>
  The vision library is not part of the program: its functions are the fields of a record
  that every definition below takes as an argument. \<^verbatim>\<open>find_contours\<close> stands for
  lines 35 to 47 (blur, colour conversion, \<^verbatim>\<open>inRange\<close>, erosion, dilation and
  \<^verbatim>\<open>cv2.findContours\<close>), \<^verbatim>\<open>contourArea\<close> and \<^verbatim>\<open>convexHull\<close> for the library
  functions of these names, \<^verbatim>\<open>flip\<close> for \<^verbatim>\<open>cv2.flip(frame, 1)\<close> and \<^verbatim>\<open>shape\<close>
  for the height and width of \<^verbatim>\<open>frame.shape\<close>.
\<close>

record ('f, 'c) cv2 =
  flip :: "'f \<Rightarrow> 'f"
  shape :: "'f \<Rightarrow> nat \<times> nat"
  find_contours :: "'f \<Rightarrow> 'c list"
  contourArea :: "'c \<Rightarrow> real"
  convexHull :: "'c \<Rightarrow> hull_points"

text \<open>
  Python's \<^verbatim>\<open>max(contours, key=...)\<close> on a non-empty sequence: the running maximum is
  replaced only by an element whose key is strictly greater, so the first of several
  maximal elements is returned.
\<close>

fun max_by :: "('a \<Rightarrow> real) \<Rightarrow> 'a \<Rightarrow> 'a list \<Rightarrow> 'a" where
  "max_by key best [] = best"
| "max_by key best (x # xs) = max_by key (if key best < key x then x else best) xs"

definition process_frame :: "('f, 'c) cv2 \<Rightarrow> 'f \<Rightarrow> hull_points option" where
  "process_frame cv frame =
     (case find_contours cv frame of
        [] \<Rightarrow> None
      | c # cs \<Rightarrow>
          (let max_contour = max_by (contourArea cv) c cs in
           if contourArea cv max_contour > 3000
           then Some (convexHull cv max_contour)
           else None))"

section \<open>run\<close>

text \<open>
  The danger zone of line 115, \<^verbatim>\<open>(int(w * 0.65), int(h * 0.25), 200, 200)\<close>, for a
  frame of width \<^verbatim>\<open>w\<close> and height \<^verbatim>\<open>h\<close>: the truncated products are the integer
  quotients of \<^verbatim>\<open>65 * w\<close> and \<^verbatim>\<open>25 * h\<close> by 100.
\<close>

definition initial_zone :: "nat \<times> nat \<Rightarrow> rect" where
  "initial_zone hw = (case hw of (h, w) \<Rightarrow> (int (65 * w div 100), int (25 * h div 100), 200, 200))"

text \<open>
  One pass through the body of \<^verbatim>\<open>while True\<close> after a successful read, lines 110 to
  123, on the only attribute the loop assigns, \<^verbatim>\<open>self.danger_zone_rect\<close>. It returns
  the attribute after the pass, the rectangle used and what \<^verbatim>\<open>calculate_logic\<close>
  returned or raised; drawing is left out.
\<close>

definition run_iteration ::
  "('f, 'c) cv2 \<Rightarrow> rect option \<Rightarrow> 'f \<Rightarrow> rect option \<times> rect \<times> (py_error + result)" where
  "run_iteration cv danger_zone_rect frame0 =
     (let frame = flip cv frame0;
          hw = shape cv frame;
          zone = (case danger_zone_rect of None \<Rightarrow> initial_zone hw | Some z \<Rightarrow> z);
          hull_pts = process_frame cv frame
      in (Some zone, zone, calculate_logic hull_pts zone))"

text \<open>
  The loop of \<^verbatim>\<open>run\<close> on a finite list of what the environment answers in each pass:
  the pair \<^verbatim>\<open>ret, frame\<close> of \<^verbatim>\<open>self.cap.read()\<close> and the integer of
  \<^verbatim>\<open>cv2.waitKey(1)\<close>. The loop stops on \<^verbatim>\<open>not ret\<close>, on an exception of
  \<^verbatim>\<open>calculate_logic\<close>, which nothing catches, and after a pass whose key satisfies
  \<^verbatim>\<open>key & 0xFF == ord('q')\<close> (113). The result lists, for every pass made, the
  rectangle used in that pass and the outcome of \<^verbatim>\<open>calculate_logic\<close> in it.
\<close>

fun run_loop ::
  "('f, 'c) cv2 \<Rightarrow> rect option \<Rightarrow> ((bool \<times> 'f) \<times> int) list
     \<Rightarrow> (rect \<times> (py_error + result)) list" where
  "run_loop cv danger_zone_rect [] = []"
| "run_loop cv danger_zone_rect (((ret, frame), key) # later) =
     (if \<not> ret then []
      else (case run_iteration cv danger_zone_rect frame of
              (danger_zone_rect', zone, outcome) \<Rightarrow>
                (zone, outcome) #
                  (case outcome of
                     Inl e \<Rightarrow> []
                   | Inr r \<Rightarrow>
                       if key mod 256 = 113 then [] else run_loop cv danger_zone_rect' later)))"

text \<open>\<^verbatim>\<open>run\<close> starts from \<^verbatim>\<open>self.danger_zone_rect = None\<close>, set in \<^verbatim>\<open>__init__\<close>.\<close>

definition run ::
  "('f, 'c) cv2 \<Rightarrow> ((bool \<times> 'f) \<times> int) list \<Rightarrow> (rect \<times> (py_error + result)) list" where
  "run cv answers = run_loop cv None answers"

section \<open>Properties of the distance of one vertex\<close>

lemma sint32_bounds: "- (2 ^ 31) \<le> sint (w :: int32) \<and> sint w < 2 ^ 31"
  using sint_ge [of w] sint_lt [of w] by simp

lemma int32_range_sint: "int32_range (sint (w :: int32))"
  using sint32_bounds [of w] by (simp add: int32_range_def)

lemma word_of_int_sint32: "word_of_int (sint (w :: int32)) = w"
  by simp

lemma sint_word_of_int32:
  "sint (word_of_int k :: int32) = signed_take_bit 31 k"
  by (simp add: sint_sbintrunc')



lemma sqrt_less_iff_sq: "0 \<le> y \<Longrightarrow> sqrt x < y \<longleftrightarrow> x < y\<^sup>2"
  using real_sqrt_less_iff [of x "y\<^sup>2"] by simp

lemma sqrt_le_iff_sq: "0 \<le> y \<Longrightarrow> sqrt x \<le> y \<longleftrightarrow> x \<le> y\<^sup>2"
  using real_sqrt_le_iff [of x "y\<^sup>2"] by simp

lemma dist_to_box_cases:
  "dist_to_box rect p = Inl OverflowError \<or> dist_to_box rect p = Inl ValueError \<or>
   (\<exists>d. dist_to_box rect p = Inr d \<and> 0 \<le> d \<and> d < 46341)"
proof -
  obtain px py where p: "p = (px, py)" by (cases p)
  obtain cl_x cl_y where cl: "closest_box_point rect (px, py) = (cl_x, cl_y)"
    by (cases "closest_box_point rect (px, py)")
  let ?s = "(px - word_of_int cl_x) ^ 2 + (py - word_of_int cl_y) ^ 2 :: int32"
  show ?thesis
  proof (cases "int32_range cl_x \<and> int32_range cl_y \<and> \<not> sint ?s < 0")
    case False
    then show ?thesis
      by (auto simp add: p cl int32_of_python_def Let_def)
  next
    case True
    then have d: "dist_to_box rect p = Inr (sqrt (real_of_int (sint ?s)))"
      by (simp add: p cl int32_of_python_def Let_def)
    have "sint ?s < 2 ^ 31" using sint32_bounds [of ?s] by simp
    then have "sint ?s < 2147488281" by simp
    then have "real_of_int (sint ?s) < real_of_int 2147488281"
      by (simp only: of_int_less_iff)
    then have "real_of_int (sint ?s) < 46341\<^sup>2"
      by (simp del: of_int_sint)
    then have "sqrt (real_of_int (sint ?s)) < 46341"
      using sqrt_less_iff_sq [of 46341 "real_of_int (sint ?s)"] by (simp del: of_int_sint)
    moreover have "0 \<le> real_of_int (sint ?s)"
      using True by (simp only: of_int_0_le_iff) simp
    then have "0 \<le> sqrt (real_of_int (sint ?s))"
      by (simp only: real_sqrt_ge_0_iff)
    ultimately show ?thesis using d by blast
  qed
qed

lemma dist_to_box_bounds:
  assumes "dist_to_box rect p = Inr d"
  shows "0 \<le> d" and "d < 46341"
  using dist_to_box_cases [of rect p] assms by auto

lemma closest_box_point_in_range:
  assumes "int32_range rx" and "int32_range ry"
  shows "int32_range (fst (closest_box_point (rx, ry, rw, rh) p)) \<and>
         int32_range (snd (closest_box_point (rx, ry, rw, rh) p))"
proof -
  obtain px py where p: "p = (px, py)" by (cases p)
  show ?thesis
    using assms sint32_bounds [of px] sint32_bounds [of py]
    by (simp add: p int32_range_def) linarith
qed


lemma dist_to_box_overflow_iff:
  "dist_to_box rect p = Inl OverflowError \<longleftrightarrow>
     \<not> (int32_range (fst (closest_box_point rect p)) \<and> int32_range (snd (closest_box_point rect p)))"
proof -
  obtain px py where p: "p = (px, py)" by (cases p)
  obtain cl_x cl_y where cl: "closest_box_point rect (px, py) = (cl_x, cl_y)"
    by (cases "closest_box_point rect (px, py)")
  show ?thesis
    by (simp add: p cl int32_of_python_def Let_def)
qed

section \<open>Properties of the scan over the hull\<close>

lemma hull_loop_inv:
  "hull_loop rect ps (m, h, b) = Inr (m', h', b') \<Longrightarrow>
     m' \<le> m \<and>
     (\<forall>p \<in> set ps. \<exists>d. dist_to_box rect p = Inr d \<and> m' \<le> d) \<and>
     (\<not> m' < m \<longrightarrow> h' = h \<and> b' = b) \<and>
     (m' < m \<longrightarrow> find (\<lambda>p. dist_to_box rect p = Inr m') ps = Some h' \<and>
                 b' = closest_box_point rect h')"
proof (induction ps arbitrary: m h b)
  case Nil
  then show ?case by simp
next
  case (Cons p ps)
  obtain d where d: "dist_to_box rect p = Inr d"
    using Cons.prems by (cases "dist_to_box rect p") simp_all
  show ?case
  proof (cases "d < m")
    case True
    with Cons.prems d
    have run: "hull_loop rect ps (d, p, closest_box_point rect p) = Inr (m', h', b')"
      by simp
    note ih = Cons.IH [OF run]
    have le: "m' \<le> d" using ih by blast
    have less: "m' < m" using le True by simp
    have all: "\<forall>q \<in> set (p # ps). \<exists>e. dist_to_box rect q = Inr e \<and> m' \<le> e"
      using ih d le by simp
    have first: "find (\<lambda>q. dist_to_box rect q = Inr m') (p # ps) = Some h' \<and>
        b' = closest_box_point rect h'"
    proof (cases "m' < d")
      case True
      then have "find (\<lambda>q. dist_to_box rect q = Inr m') ps = Some h' \<and>
          b' = closest_box_point rect h'"
        using ih by blast
      moreover have "dist_to_box rect p \<noteq> Inr m'" using d True by simp
      ultimately show ?thesis by simp
    next
      case False
      then have "h' = p \<and> b' = closest_box_point rect p" using ih by blast
      moreover have "dist_to_box rect p = Inr m'" using d le False by simp
      ultimately show ?thesis by simp
    qed
    show ?thesis using less all first by simp
  next
    case False
    with Cons.prems d have run: "hull_loop rect ps (m, h, b) = Inr (m', h', b')"
      by simp
    note ih = Cons.IH [OF run]
    have le: "m' \<le> m" using ih by blast
    have all: "\<forall>q \<in> set (p # ps). \<exists>e. dist_to_box rect q = Inr e \<and> m' \<le> e"
      using ih d le False by auto
    have keep: "\<not> m' < m \<longrightarrow> h' = h \<and> b' = b" using ih by blast
    have first: "m' < m \<longrightarrow> find (\<lambda>q. dist_to_box rect q = Inr m') (p # ps) = Some h' \<and>
        b' = closest_box_point rect h'"
    proof
      assume less: "m' < m"
      then have "find (\<lambda>q. dist_to_box rect q = Inr m') ps = Some h' \<and>
          b' = closest_box_point rect h'"
        using ih by blast
      moreover have "dist_to_box rect p \<noteq> Inr m'" using d less False by simp
      ultimately show "find (\<lambda>q. dist_to_box rect q = Inr m') (p # ps) = Some h' \<and>
          b' = closest_box_point rect h'"
        by simp
    qed
    show ?thesis using le all keep first by blast
  qed
qed

lemma hull_loop_error:
  "hull_loop rect ps acc = Inl e \<Longrightarrow> \<exists>p \<in> set ps. dist_to_box rect p = Inl e"
proof (induction ps arbitrary: acc)
  case Nil
  then show ?case by simp
next
  case (Cons p ps)
  obtain m h b where acc: "acc = (m, h, b)" by (cases acc)
  show ?case
  proof (cases "dist_to_box rect p")
    case (Inl e')
    with Cons.prems acc show ?thesis by simp
  next
    case (Inr d)
    with Cons.prems acc
    have "hull_loop rect ps (d, p, closest_box_point rect p) = Inl e \<or>
        hull_loop rect ps (m, h, b) = Inl e"
      by (simp split: if_splits)
    then have "\<exists>q \<in> set ps. dist_to_box rect q = Inl e"
      using Cons.IH by blast
    then show ?thesis by simp
  qed
qed


lemma find_SomeD_set: "find P xs = Some x \<Longrightarrow> x \<in> set xs \<and> P x"
  by (induction xs) (auto split: if_splits)

lemma calculate_logic_Some_Inr:
  assumes "hull_loop rect ps (99999, (0, 0), (0, 0)) = Inr (m', h', b')"
  shows "calculate_logic (Some ps) rect =
    Inr (if m' \<le> 10 then STATE_DANGER else if m' < 150 then STATE_WARNING else STATE_SAFE,
         m', h', b')"
  using assms by (simp add: calculate_logic_def)

lemma calculate_logic_Some_Inl:
  "calculate_logic (Some ps) rect = Inl e \<longleftrightarrow> hull_loop rect ps (99999, (0, 0), (0, 0)) = Inl e"
  by (cases "hull_loop rect ps (99999, (0, 0), (0, 0))")
     (auto simp add: calculate_logic_def split: prod.splits)

lemma calculate_logic_InrD:
  assumes "calculate_logic (Some ps) rect = Inr r"
  shows "hull_loop rect ps (99999, (0, 0), (0, 0))
           = Inr (res_distance r, res_hand_point r, res_box_point r)"
    and "res_state r = (if res_distance r \<le> 10 then STATE_DANGER
                        else if res_distance r < 150 then STATE_WARNING else STATE_SAFE)"
proof -
  obtain m' h' b' where run: "hull_loop rect ps (99999, (0, 0), (0, 0)) = Inr (m', h', b')"
    using assms
    by (cases "hull_loop rect ps (99999, (0, 0), (0, 0))") (auto simp add: calculate_logic_def)
  have r: "r = (if m' \<le> 10 then STATE_DANGER else if m' < 150 then STATE_WARNING else STATE_SAFE,
      m', h', b')"
    using calculate_logic_Some_Inr [OF run] assms by simp
  show "hull_loop rect ps (99999, (0, 0), (0, 0))
           = Inr (res_distance r, res_hand_point r, res_box_point r)"
    using run by (simp add: r res_distance_def res_hand_point_def res_box_point_def)
  show "res_state r = (if res_distance r \<le> 10 then STATE_DANGER
                        else if res_distance r < 150 then STATE_WARNING else STATE_SAFE)"
    by (simp add: r res_distance_def res_state_def)
qed


lemma calculate_logic_error:
  assumes "calculate_logic (Some ps) rect = Inl e"
  shows "\<exists>p \<in> set ps. dist_to_box rect p = Inl e"
proof -
  have "hull_loop rect ps (99999, (0, 0), (0, 0)) = Inl e"
    using assms by (simp only: calculate_logic_Some_Inl)
  then show ?thesis by (rule hull_loop_error)
qed

text \<open>
  Whatever line 85 computes, the distance returned is at most the start value 99999 of
  line 72.
\<close>

lemma calculate_logic_at_most_start:
  assumes "calculate_logic (Some ps) rect = Inr r"
  shows "res_distance r \<le> 99999"
  using hull_loop_inv [OF calculate_logic_InrD(1) [OF assms]] by blast

text \<open>
  With at least one vertex the loop assigns, since a 32-bit sum has a square root below
  46341: the distance is below 99999.
\<close>

lemma calculate_logic_nonempty:
  assumes "ps \<noteq> []" and "calculate_logic (Some ps) rect = Inr r"
  shows "res_distance r < 46341" and "res_distance r < 99999"
proof -
  note inv = hull_loop_inv [OF calculate_logic_InrD(1) [OF assms(2)]]
  obtain p where p: "p \<in> set ps" using assms(1) by (cases ps) auto
  with inv obtain d where d: "dist_to_box rect p = Inr d" "res_distance r \<le> d" by blast
  from dist_to_box_bounds(2) [OF d(1)] d(2) show "res_distance r < 46341" by simp
  then show "res_distance r < 99999" by simp
qed

lemma calculate_logic_first:
  assumes "ps \<noteq> []" and "calculate_logic (Some ps) rect = Inr r"
  shows "find (\<lambda>p. dist_to_box rect p = Inr (res_distance r)) ps = Some (res_hand_point r)"
    and "res_box_point r = closest_box_point rect (res_hand_point r)"
    and "\<forall>p \<in> set ps. \<exists>d. dist_to_box rect p = Inr d \<and> res_distance r \<le> d"
proof -
  note inv = hull_loop_inv [OF calculate_logic_InrD(1) [OF assms(2)]]
  have lt: "res_distance r < 99999" using assms by (rule calculate_logic_nonempty(2))
  show "find (\<lambda>p. dist_to_box rect p = Inr (res_distance r)) ps = Some (res_hand_point r)"
    using inv lt by blast
  show "res_box_point r = closest_box_point rect (res_hand_point r)"
    using inv lt by blast
  show "\<forall>p \<in> set ps. \<exists>d. dist_to_box rect p = Inr d \<and> res_distance r \<le> d"
    using inv by blast
qed


subsection \<open>Translation of the hull and of the zone\<close>

lemma sint_add_in_range:
  assumes "int32_range (sint (w :: int32) + k)"
  shows "sint (w + word_of_int k) = sint w + k"
proof -
  have "w + word_of_int k = word_of_int (sint w + k)" by simp
  then have "sint (w + word_of_int k) = signed_take_bit 31 (sint w + k)"
    by (simp only: sint_word_of_int32)
  also have "\<dots> = sint w + k"
    using assms by (intro signed_take_bit_int_eq_self) (simp_all add: int32_range_def)
  finally show ?thesis .
qed

lemma closest_box_point_translate:
  assumes "int32_range (sint px + dx)" and "int32_range (sint py + dy)"
  shows "closest_box_point (rx + dx, ry + dy, rw, rh) (px + word_of_int dx, py + word_of_int dy)
       = (fst (closest_box_point (rx, ry, rw, rh) (px, py)) + dx,
          snd (closest_box_point (rx, ry, rw, rh) (px, py)) + dy)"
  by (simp add: sint_add_in_range [OF assms(1)] sint_add_in_range [OF assms(2)] max_def min_def)

lemma dist_to_box_translate:
  assumes "int32_range (sint px + dx)" and "int32_range (sint py + dy)"
    and "int32_range (fst (closest_box_point (rx, ry, rw, rh) (px, py)))"
    and "int32_range (snd (closest_box_point (rx, ry, rw, rh) (px, py)))"
    and "int32_range (fst (closest_box_point (rx, ry, rw, rh) (px, py)) + dx)"
    and "int32_range (snd (closest_box_point (rx, ry, rw, rh) (px, py)) + dy)"
  shows "dist_to_box (rx + dx, ry + dy, rw, rh) (px + word_of_int dx, py + word_of_int dy)
       = dist_to_box (rx, ry, rw, rh) (px, py)"
proof -
  obtain cl_x cl_y where cl: "closest_box_point (rx, ry, rw, rh) (px, py) = (cl_x, cl_y)"
    by (cases "closest_box_point (rx, ry, rw, rh) (px, py)")
  have cl': "closest_box_point (rx + dx, ry + dy, rw, rh) (px + word_of_int dx, py + word_of_int dy)
      = (cl_x + dx, cl_y + dy)"
    by (simp only: closest_box_point_translate [OF assms(1,2)] cl fst_conv snd_conv)
  have rng: "int32_range cl_x" "int32_range cl_y" "int32_range (cl_x + dx)" "int32_range (cl_y + dy)"
    using assms(3-6) by (simp_all only: cl fst_conv snd_conv)
  have x: "px + word_of_int dx - word_of_int (cl_x + dx) = px - (word_of_int cl_x :: int32)"
    by (simp add: wi_hom_add [symmetric])
  have y: "py + word_of_int dy - word_of_int (cl_y + dy) = py - (word_of_int cl_y :: int32)"
    by (simp add: wi_hom_add [symmetric])
  show ?thesis
    by (simp only: dist_to_box.simps cl cl' prod.case int32_of_python_def rng if_True sum.case x y)
qed

lemma find_map_fun:
  "find P (map f xs) = map_option f (find (\<lambda>x. P (f x)) xs)"
  by (induction xs) simp_all

lemma hull_loop_error_map:
  assumes "\<forall>p \<in> set ps. dist_to_box z' (f p) = dist_to_box z p"
  shows "hull_loop z' (map f ps) acc' = Inl e \<longleftrightarrow> hull_loop z ps acc = Inl e"
  using assms
proof (induction ps arbitrary: acc acc')
  case Nil
  then show ?case by simp
next
  case (Cons p ps)
  obtain m h b where acc: "acc = (m, h, b)" by (cases acc)
  obtain m' h' b' where acc': "acc' = (m', h', b')" by (cases acc')
  have same: "dist_to_box z' (f p) = dist_to_box z p" using Cons.prems by simp
  have rest: "\<forall>q \<in> set ps. dist_to_box z' (f q) = dist_to_box z q" using Cons.prems by simp
  show ?case
  proof (cases "dist_to_box z p")
    case (Inl e0)
    then show ?thesis using same by (simp add: acc acc')
  next
    case (Inr d)
    then show ?thesis
      using same Cons.IH [OF rest] by (simp add: acc acc')
  qed
qed


lemma sqrt_2500: "sqrt 2500 = 50"
  by (rule real_sqrt_unique) simp_all




lemma sqrt_200000_sq: "sqrt 40000000000 = 200000"
  by (rule real_sqrt_unique) simp_all

lemma sqrt_99999_sq: "sqrt 9999800001 = 99999"
  by (rule real_sqrt_unique) simp_all

lemma sqrt_wrapped_bounds:
  "\<not> sqrt 1345294336 \<le> 10" "\<not> sqrt 1345294336 < 150" "sqrt 1345294336 < 99999"
  "\<not> sqrt 1409865409 \<le> 10" "\<not> sqrt 1409865409 < 150" "sqrt 1409865409 < 99999"
  by (simp_all add: sqrt_le_iff_sq sqrt_less_iff_sq)

section \<open>The claims about calculate\_logic\<close>

text \<open>
  Claim C3: for every rectangle, \<^verbatim>\<open>calculate_logic\<close> called with \<^verbatim>\<open>hull = None\<close>
  returns state SAFE, distance 0, hand point (0, 0) and zone point (0, 0): a value, not
  an error.
\<close>

theorem calculate_logic_none:
  "calculate_logic None rect = Inr (STATE_SAFE, 0, (0, 0), (0, 0))"
  by (simp add: calculate_logic_def)

theorem calculate_logic_none_witness:
  "calculate_logic None (100, 100, 200, 200) = Inr (STATE_SAFE, 0, (0, 0), (0, 0))"
  using calculate_logic_none [of "(100, 100, 200, 200)"] by simp






text \<open>
  Claim C4 as stated fails in its second half: with no hull the distance is 0, which is
  no "infinite" sentinel but less than the distance 50 that the hull of the single vertex
  (50, 100) has from the zone (100, 100, 200, 200).
\<close>

theorem calculate_logic_distance_counterexample:
  "calculate_logic None (100, 100, 200, 200) = Inr (STATE_SAFE, 0, (0, 0), (0, 0)) \<and>
   calculate_logic (Some [(50, 100)]) (100, 100, 200, 200)
     = Inr (STATE_WARNING, 50, (50, 100), (100, 100)) \<and>
   res_distance (STATE_SAFE, 0, (0, 0), (0, 0))
     < res_distance (STATE_WARNING, 50, (50, 100), (100, 100))"
  by (simp add: calculate_logic_def res_distance_def int32_of_python_def int32_range_def sqrt_2500)

text \<open>
  Claim C4, amended: the distance of every result that \<^verbatim>\<open>calculate_logic\<close> returns is
  non-negative, and when no hull is present the function returns and the distance is 0.
\<close>

theorem calculate_logic_distance_nonneg:
  "(calculate_logic hull_arg rect = Inr r \<longrightarrow> 0 \<le> res_distance r) \<and>
   (\<exists>r0. calculate_logic None rect = Inr r0 \<and> res_distance r0 = 0)"
proof -
  have a: "0 \<le> res_distance r" if ret: "calculate_logic hull_arg rect = Inr r"
  proof (cases hull_arg)
    case None
    with ret show ?thesis by (auto simp add: calculate_logic_def res_distance_def)
  next
    case (Some ps)
    show ?thesis
    proof (cases ps)
      case Nil
      with ret Some show ?thesis by (auto simp add: calculate_logic_def res_distance_def)
    next
      case (Cons p qs)
      then have ne: "ps \<noteq> []" by simp
      from ret Some have ret': "calculate_logic (Some ps) rect = Inr r" by simp
      have "find (\<lambda>p. dist_to_box rect p = Inr (res_distance r)) ps = Some (res_hand_point r)"
        using ne ret' by (rule calculate_logic_first(1))
      then have "dist_to_box rect (res_hand_point r) = Inr (res_distance r)"
        using find_SomeD_set by fast
      then show ?thesis by (rule dist_to_box_bounds(1))
    qed
  qed
  have b: "\<exists>r0. calculate_logic None rect = Inr r0 \<and> res_distance r0 = 0"
    by (simp add: calculate_logic_def res_distance_def)
  show ?thesis using a b by blast
qed

theorem calculate_logic_distance_nonneg_witness:
  "calculate_logic (Some [(50, 100)]) (100, 100, 200, 200)
     = Inr (STATE_WARNING, 50, (50, 100), (100, 100)) \<and>
   0 \<le> res_distance (STATE_WARNING, 50, (50, 100), (100, 100)) \<and>
   (\<exists>r0. calculate_logic None (100, 100, 200, 200) = Inr r0 \<and> res_distance r0 = 0)"
proof -
  have c: "calculate_logic (Some [(50, 100)]) (100, 100, 200, 200)
     = Inr (STATE_WARNING, 50, (50, 100), (100, 100))"
    by (simp add: calculate_logic_def int32_of_python_def int32_range_def sqrt_2500)
  note t = calculate_logic_distance_nonneg [of "Some [(50, 100)]" "(100, 100, 200, 200)"
      "(STATE_WARNING, 50, (50, 100), (100, 100))"]
  show ?thesis using c t by blast
qed




text \<open>
  Claim C9 says that a non-empty hull whose every vertex is at Euclidean distance 99999
  or more has the result SAFE, 99999 and both points (0, 0). The loop is written for it
  (it starts from these values and assigns only on \<^verbatim>\<open>dist < min_dist\<close>), but the code
  does not do it: the square of line 85 wraps in 32 bits. Against the zone
  (0, 0, 200, 200) the vertex (200200, 0), at distance 200000, is recorded with the
  distance \<^verbatim>\<open>sqrt(1345294336)\<close>, and the vertex (100199, 0), at distance exactly 99999,
  with \<^verbatim>\<open>sqrt(1409865409)\<close>.
\<close>

theorem calculate_logic_far_vertex:
  "euclid_dist (0, 0, 200, 200) (200200, 0) = 200000 \<and>
   calculate_logic (Some [(200200, 0)]) (0, 0, 200, 200)
     = Inr (STATE_SAFE, sqrt 1345294336, (200200, 0), (200, 0)) \<and>
   euclid_dist (0, 0, 200, 200) (100199, 0) = 99999 \<and>
   calculate_logic (Some [(100199, 0)]) (0, 0, 200, 200)
     = Inr (STATE_SAFE, sqrt 1409865409, (100199, 0), (200, 0))"
  by (simp add: calculate_logic_def euclid_dist_def int32_of_python_def int32_range_def
      sqrt_200000_sq sqrt_99999_sq sqrt_wrapped_bounds)

text \<open>
  Claim C10: for every non-empty hull and rectangle (rx, ry, rw, rh), whenever the
  distance returned is strictly less than 99999, the hand point returned is a vertex of
  the hull and the zone point returned is the clamp of that hand point to the rectangle;
  hence, the width and the height of a rectangle being non-negative, it lies within
  [rx, rx+rw] x [ry, ry+rh].
\<close>

theorem calculate_logic_points:
  assumes "ps \<noteq> []" and "calculate_logic (Some ps) (rx, ry, rw, rh) = Inr r"
    and "res_distance r < 99999"
  shows "res_hand_point r \<in> set ps \<and>
         res_box_point r = closest_box_point (rx, ry, rw, rh) (res_hand_point r) \<and>
         (0 \<le> rw \<longrightarrow> rx \<le> fst (res_box_point r) \<and> fst (res_box_point r) \<le> rx + rw) \<and>
         (0 \<le> rh \<longrightarrow> ry \<le> snd (res_box_point r) \<and> snd (res_box_point r) \<le> ry + rh)"
proof -
  note inv = hull_loop_inv [OF calculate_logic_InrD(1) [OF assms(2)]]
  have "find (\<lambda>p. dist_to_box (rx, ry, rw, rh) p = Inr (res_distance r)) ps
      = Some (res_hand_point r)"
    using inv assms(3) by blast
  then have mem: "res_hand_point r \<in> set ps"
    using find_SomeD_set by fast
  have box: "res_box_point r = closest_box_point (rx, ry, rw, rh) (res_hand_point r)"
    using inv assms(3) by blast
  obtain px py where h: "res_hand_point r = (px, py)"
    by (cases "res_hand_point r")
  have x: "0 \<le> rw \<longrightarrow> rx \<le> fst (res_box_point r) \<and> fst (res_box_point r) \<le> rx + rw"
    by (simp only: box h closest_box_point.simps fst_conv) linarith
  have y: "0 \<le> rh \<longrightarrow> ry \<le> snd (res_box_point r) \<and> snd (res_box_point r) \<le> ry + rh"
    by (simp only: box h closest_box_point.simps snd_conv) linarith
  show ?thesis using mem box x y by blast
qed

theorem calculate_logic_points_witness:
  "[(50, 100), (102, 102)] \<noteq> ([] :: point list) \<and>
   calculate_logic (Some [(50, 100), (102, 102)]) (100, 100, 200, 200)
     = Inr (STATE_DANGER, 0, (102, 102), (102, 102)) \<and>
   res_distance (STATE_DANGER, 0, (102, 102), (102, 102)) < 99999 \<and>
   (0 :: int) \<le> 200 \<and>
   res_hand_point (STATE_DANGER, 0, (102, 102), (102, 102)) \<in> set [(50, 100), (102, 102)] \<and>
   100 \<le> fst (res_box_point (STATE_DANGER, 0, (102, 102), (102, 102))) \<and>
   fst (res_box_point (STATE_DANGER, 0, (102, 102), (102, 102))) \<le> 100 + 200 \<and>
   100 \<le> snd (res_box_point (STATE_DANGER, 0, (102, 102), (102, 102))) \<and>
   snd (res_box_point (STATE_DANGER, 0, (102, 102), (102, 102))) \<le> 100 + 200"
proof -
  have ne: "[(50, 100), (102, 102)] \<noteq> ([] :: point list)" by simp
  have c: "calculate_logic (Some [(50, 100), (102, 102)]) (100, 100, 200, 200)
     = Inr (STATE_DANGER, 0, (102, 102), (102, 102))"
    by (simp add: calculate_logic_def int32_of_python_def int32_range_def sqrt_2500)
  have near: "res_distance (STATE_DANGER, 0, (102, 102), (102, 102)) < 99999"
    by (simp add: res_distance_def)
  have w: "(0 :: int) \<le> 200" by simp
  note t = calculate_logic_points [OF ne c near]
  show ?thesis using ne c near w t by blast
qed

text \<open>
  Claim C7 as stated fails in two ways. For \<^verbatim>\<open>None\<close> the points returned are (0, 0)
  whatever the zone, so after a translation by (5, 0) the hand point is still (0, 0) and
  not (5, 0). And a translation can move the zone out of the 32-bit range: the vertex
  (0, 0) against the zone with origin (2147483647, 0) gives DANGER with distance 1 (the
  square of 2147483647 wraps to 1), while after a translation by (1, 0) the subtraction
  of line 85 raises \<^verbatim>\<open>OverflowError\<close>.
\<close>

theorem calculate_logic_translate_counterexample:
  "calculate_logic None (0, 0, 200, 200) = Inr (STATE_SAFE, 0, (0, 0), (0, 0)) \<and>
   calculate_logic (map_option (map (\<lambda>(px, py). (px + word_of_int 5, py + word_of_int 0))) None)
     (0 + 5, 0 + 0, 200, 200) = Inr (STATE_SAFE, 0, (0, 0), (0, 0)) \<and>
   res_hand_point (STATE_SAFE, 0, (0, 0), (0, 0))
     \<noteq> (\<lambda>(px, py). (px + word_of_int 5, py + word_of_int 0))
          (res_hand_point (STATE_SAFE, 0, (0, 0), (0, 0))) \<and>
   calculate_logic (Some [(0, 0)]) (2147483647, 0, 200, 200)
     = Inr (STATE_DANGER, 1, (0, 0), (2147483647, 0)) \<and>
   calculate_logic (map_option (map (\<lambda>(px, py). (px + word_of_int 1, py + word_of_int 0)))
                      (Some [(0, 0)]))
     (2147483647 + 1, 0 + 0, 200, 200) = Inl OverflowError"
  by (simp add: calculate_logic_def res_hand_point_def int32_of_python_def int32_range_def)

text \<open>
  Claim C7, amended: for every hull (including \<^verbatim>\<open>None\<close>), every rectangle and every
  vector (dx, dy) that leaves the vertices in the 32-bit range, whenever the hull and the
  rectangle and their translates by (dx, dy) both have a result, the two results have the
  same state and the same distance. When a hull is present and the distance is below
  99999, the hand point and the zone point are the untranslated ones translated by
  (dx, dy); when the hull is \<^verbatim>\<open>None\<close> or the distance is not below 99999, both
  points are (0, 0) before and after the translation. When the origins of both rectangles
  are in the 32-bit range, one call raises exactly when the other does, and the same
  exception.
\<close>

theorem calculate_logic_translate:
  assumes "\<forall>ps \<in> set_option hull_arg. \<forall>p \<in> set ps.
             int32_range (sint (fst p) + dx) \<and> int32_range (sint (snd p) + dy)"
  shows
   "(\<forall>r r'. calculate_logic hull_arg (rx, ry, rw, rh) = Inr r \<and>
        calculate_logic
          (map_option (map (\<lambda>(px, py). (px + word_of_int dx, py + word_of_int dy))) hull_arg)
          (rx + dx, ry + dy, rw, rh) = Inr r' \<longrightarrow>
        res_state r' = res_state r \<and> res_distance r' = res_distance r \<and>
        (hull_arg \<noteq> None \<and> res_distance r < 99999 \<longrightarrow>
           res_hand_point r'
             = (\<lambda>(px, py). (px + word_of_int dx, py + word_of_int dy)) (res_hand_point r) \<and>
           res_box_point r' = (\<lambda>(bx, by). (bx + dx, by + dy)) (res_box_point r)) \<and>
        (hull_arg = None \<or> \<not> res_distance r < 99999 \<longrightarrow>
           res_hand_point r' = (0, 0) \<and> res_box_point r' = (0, 0) \<and>
           res_hand_point r = (0, 0) \<and> res_box_point r = (0, 0))) \<and>
    (int32_range rx \<and> int32_range ry \<and> int32_range (rx + dx) \<and> int32_range (ry + dy) \<longrightarrow>
       (\<forall>e. calculate_logic
               (map_option (map (\<lambda>(px, py). (px + word_of_int dx, py + word_of_int dy))) hull_arg)
               (rx + dx, ry + dy, rw, rh) = Inl e
             \<longleftrightarrow> calculate_logic hull_arg (rx, ry, rw, rh) = Inl e))"
proof (cases hull_arg)
  case None
  then show ?thesis
    by (auto simp add: calculate_logic_def res_state_def res_distance_def res_hand_point_def
        res_box_point_def)
next
  case (Some ps)
  let ?tr = "\<lambda>(px, py). (px + word_of_int dx, py + word_of_int dy) :: point"
  let ?trb = "\<lambda>(bx, by). (bx + dx, by + dy) :: int \<times> int"
  let ?z = "(rx, ry, rw, rh)"
  let ?z' = "(rx + dx, ry + dy, rw, rh)"
  have ok: "int32_range (sint (fst p) + dx) \<and> int32_range (sint (snd p) + dy)"
    if "p \<in> set ps" for p
    using assms Some that by simp
  have cshift: "closest_box_point ?z' (?tr p) = ?trb (closest_box_point ?z p)"
    if "p \<in> set ps" for p
  proof -
    obtain px py where p: "p = (px, py)" by (cases p)
    have "int32_range (sint px + dx)" "int32_range (sint py + dy)"
      using ok [OF that] by (simp_all add: p)
    from closest_box_point_translate [OF this, of rx ry rw rh]
    show ?thesis by (simp add: p split: prod.splits)
  qed
  have dshift: "dist_to_box ?z' (?tr p) = dist_to_box ?z p"
    if mem: "p \<in> set ps"
      and r1: "int32_range (fst (closest_box_point ?z p))"
        "int32_range (snd (closest_box_point ?z p))"
      and r2: "int32_range (fst (closest_box_point ?z' (?tr p)))"
        "int32_range (snd (closest_box_point ?z' (?tr p)))" for p
  proof -
    obtain px py where p: "p = (px, py)" by (cases p)
    have a: "int32_range (sint px + dx)" "int32_range (sint py + dy)"
      using ok [OF mem] by (simp_all add: p)
    have b: "int32_range (fst (closest_box_point ?z (px, py)))"
      "int32_range (snd (closest_box_point ?z (px, py)))"
      using r1 by (simp_all only: p)
    have tp: "?tr p = (px + word_of_int dx, py + word_of_int dy)" by (simp add: p)
    have cs: "closest_box_point ?z' (?tr p)
        = (fst (closest_box_point ?z (px, py)) + dx, snd (closest_box_point ?z (px, py)) + dy)"
      by (simp only: tp closest_box_point_translate [OF a])
    have c: "int32_range (fst (closest_box_point ?z (px, py)) + dx)"
      "int32_range (snd (closest_box_point ?z (px, py)) + dy)"
      using r2 by (simp_all only: cs fst_conv snd_conv)
    from dist_to_box_translate [OF a b c] show ?thesis by (simp add: p)
  qed
  have part1: "res_state r' = res_state r \<and> res_distance r' = res_distance r \<and>
        (res_distance r < 99999 \<longrightarrow>
           res_hand_point r' = ?tr (res_hand_point r) \<and>
           res_box_point r' = ?trb (res_box_point r)) \<and>
        (\<not> res_distance r < 99999 \<longrightarrow>
           res_hand_point r' = (0, 0) \<and> res_box_point r' = (0, 0) \<and>
           res_hand_point r = (0, 0) \<and> res_box_point r = (0, 0))"
    if ret: "calculate_logic (Some ps) ?z = Inr r"
      and ret': "calculate_logic (Some (map ?tr ps)) ?z' = Inr r'" for r r'
  proof (cases "ps = []")
    case True
    with ret ret' show ?thesis
      by (auto simp add: calculate_logic_def res_state_def res_distance_def res_hand_point_def
          res_box_point_def)
  next
    case False
    then have ne': "map ?tr ps \<noteq> []" by simp
    note first = calculate_logic_first [OF False ret]
    note first' = calculate_logic_first [OF ne' ret']
    have same: "dist_to_box ?z' (?tr p) = dist_to_box ?z p" if mem: "p \<in> set ps" for p
    proof -
      from first(3) mem obtain d where "dist_to_box ?z p = Inr d" by blast
      then have "dist_to_box ?z p \<noteq> Inl OverflowError" by simp
      then have r1: "int32_range (fst (closest_box_point ?z p))"
        "int32_range (snd (closest_box_point ?z p))"
        by (simp_all add: dist_to_box_overflow_iff)
      have "?tr p \<in> set (map ?tr ps)" using mem by simp
      with first'(3) obtain d' where "dist_to_box ?z' (?tr p) = Inr d'" by blast
      then have "dist_to_box ?z' (?tr p) \<noteq> Inl OverflowError" by simp
      then have r2: "int32_range (fst (closest_box_point ?z' (?tr p)))"
        "int32_range (snd (closest_box_point ?z' (?tr p)))"
        by (simp_all add: dist_to_box_overflow_iff)
      from mem r1 r2 show ?thesis by (rule dshift)
    qed
    have hand: "res_hand_point r \<in> set ps"
      and at: "dist_to_box ?z (res_hand_point r) = Inr (res_distance r)"
      using find_SomeD_set [OF first(1)] by blast+
    have "dist_to_box ?z' (?tr (res_hand_point r)) = Inr (res_distance r)"
      using same [OF hand] at by simp
    moreover have "?tr (res_hand_point r) \<in> set (map ?tr ps)" using hand by simp
    ultimately have le1: "res_distance r' \<le> res_distance r"
      using first'(3) by force
    have "res_hand_point r' \<in> set (map ?tr ps)"
      and at': "dist_to_box ?z' (res_hand_point r') = Inr (res_distance r')"
      using find_SomeD_set [OF first'(1)] by blast+
    then obtain q where q: "q \<in> set ps" "res_hand_point r' = ?tr q" by auto
    then have "dist_to_box ?z q = Inr (res_distance r')"
      using same [OF q(1)] at' by simp
    with q(1) have le2: "res_distance r \<le> res_distance r'"
      using first(3) by force
    have d: "res_distance r' = res_distance r" using le1 le2 by simp
    have st: "res_state r' = res_state r"
      by (simp only: calculate_logic_InrD(2) [OF ret'] calculate_logic_InrD(2) [OF ret] d)
    have "find (\<lambda>q. dist_to_box ?z' q = Inr (res_distance r')) (map ?tr ps)
        = map_option ?tr (find (\<lambda>p. dist_to_box ?z' (?tr p) = Inr (res_distance r)) ps)"
      by (simp only: find_map_fun d)
    also have "find (\<lambda>p. dist_to_box ?z' (?tr p) = Inr (res_distance r)) ps
        = find (\<lambda>p. dist_to_box ?z p = Inr (res_distance r)) ps"
      using same by (intro find_cong) auto
    finally have "Some (res_hand_point r') = map_option ?tr (Some (res_hand_point r))"
      by (simp only: first(1) first'(1))
    then have h: "res_hand_point r' = ?tr (res_hand_point r)" by simp
    have "res_box_point r' = closest_box_point ?z' (?tr (res_hand_point r))"
      by (simp only: first'(2) h)
    then have b: "res_box_point r' = ?trb (res_box_point r)"
      by (simp only: cshift [OF hand] first(2) [symmetric])
    have lt: "res_distance r < 99999" using False ret by (rule calculate_logic_nonempty(2))
    show ?thesis using st d h b lt by blast
  qed
  have part2: "calculate_logic (Some (map ?tr ps)) ?z' = Inl e
      \<longleftrightarrow> calculate_logic (Some ps) ?z = Inl e"
    if rng: "int32_range rx \<and> int32_range ry \<and> int32_range (rx + dx) \<and> int32_range (ry + dy)"
    for e
  proof -
    have same: "\<forall>p \<in> set ps. dist_to_box ?z' (?tr p) = dist_to_box ?z p"
    proof
      fix p assume mem: "p \<in> set ps"
      have r1: "int32_range (fst (closest_box_point ?z p))"
        "int32_range (snd (closest_box_point ?z p))"
        using closest_box_point_in_range [of rx ry rw rh p] rng by simp_all
      have r2: "int32_range (fst (closest_box_point ?z' (?tr p)))"
        "int32_range (snd (closest_box_point ?z' (?tr p)))"
        using closest_box_point_in_range [of "rx + dx" "ry + dy" rw rh "?tr p"] rng by simp_all
      from mem r1 r2 show "dist_to_box ?z' (?tr p) = dist_to_box ?z p" by (rule dshift)
    qed
    show ?thesis
      by (simp only: calculate_logic_Some_Inl hull_loop_error_map [OF same])
  qed
  show ?thesis
    using part1 part2 by (simp only: Some option.map) blast
qed

theorem calculate_logic_translate_witness:
  "int32_range (sint (50 :: int32) + 7) \<and> int32_range (sint (100 :: int32) + - 3) \<and>
   Some [(50, 100)] \<noteq> (None :: point list option) \<and>
   calculate_logic (Some [(50, 100)]) (100, 100, 200, 200)
     = Inr (STATE_WARNING, 50, (50, 100), (100, 100)) \<and>
   res_distance (STATE_WARNING, 50, (50, 100), (100, 100)) < 99999 \<and>
   calculate_logic (Some [(57, 97)]) (107, 97, 200, 200)
     = Inr (STATE_WARNING, 50, (57, 97), (107, 97)) \<and>
   int32_range (sint (46541 :: int32) + 7) \<and> int32_range (sint (0 :: int32) + - 3) \<and>
   int32_range 0 \<and> int32_range (0 + 7) \<and> int32_range (0 + - 3) \<and>
   calculate_logic (Some [(46541, 0)]) (0, 0, 200, 200) = Inl ValueError \<and>
   calculate_logic (Some [(46548, - 3)]) (7, - 3, 200, 200) = Inl ValueError"
proof -
  let ?r = "(STATE_WARNING, 50, (50, 100), (100, 100)) :: result"
  have ok: "\<forall>ps \<in> set_option (Some ([(50, 100)] :: point list)). \<forall>p \<in> set ps.
      int32_range (sint (fst p) + 7) \<and> int32_range (sint (snd p) + - 3)"
    by (simp add: int32_range_def)
  have ne: "Some [(50, 100)] \<noteq> (None :: point list option)" by simp
  have c: "calculate_logic (Some [(50, 100)]) (100, 100, 200, 200) = Inr ?r"
    by (simp add: calculate_logic_def int32_of_python_def int32_range_def sqrt_2500)
  have lt: "res_distance ?r < 99999" by (simp add: res_distance_def)
  obtain r' where c': "calculate_logic (Some [(57, 97)]) (107, 97, 200, 200) = Inr r'"
    by (simp add: calculate_logic_def int32_of_python_def int32_range_def sqrt_2500)
  have inst: "calculate_logic
      (map_option (map (\<lambda>(px, py). (px + word_of_int 7, py + word_of_int (- 3))))
         (Some [(50, 100)]))
      (100 + 7, 100 + - 3, 200, 200) = Inr r'"
    using c' by simp
  note t = calculate_logic_translate [OF ok, of 100 100 200 200]
  from t c inst ne lt
  have "res_state r' = res_state ?r \<and> res_distance r' = res_distance ?r \<and>
      res_hand_point r' = (\<lambda>(px, py). (px + word_of_int 7, py + word_of_int (- 3))) (res_hand_point ?r) \<and>
      res_box_point r' = (\<lambda>(bx, by). (bx + 7, by + - 3)) (res_box_point ?r)"
    by blast
  then have "r' = (STATE_WARNING, 50, (57, 97), (107, 97))"
    by (cases r') (simp add: res_state_def res_distance_def res_hand_point_def res_box_point_def)
  with c' have moved: "calculate_logic (Some [(57, 97)]) (107, 97, 200, 200)
     = Inr (STATE_WARNING, 50, (57, 97), (107, 97))"
    by simp
  have rng: "int32_range (sint (50 :: int32) + 7)" "int32_range (sint (100 :: int32) + - 3)"
    "int32_range (sint (46541 :: int32) + 7)" "int32_range (sint (0 :: int32) + - 3)"
    "int32_range 0" "int32_range (0 + 7)" "int32_range (0 + - 3)"
    by (simp_all add: int32_range_def)
  have ok2: "\<forall>ps \<in> set_option (Some ([(46541, 0)] :: point list)). \<forall>p \<in> set ps.
      int32_range (sint (fst p) + 7) \<and> int32_range (sint (snd p) + - 3)"
    by (simp add: int32_range_def)
  have e: "calculate_logic (Some [(46541, 0)]) (0, 0, 200, 200) = Inl ValueError"
    by (simp add: calculate_logic_def int32_of_python_def int32_range_def)
  note t2 = calculate_logic_translate [OF ok2, of 0 0 200 200]
  from t2 rng(5-7) e
  have "calculate_logic
      (map_option (map (\<lambda>(px, py). (px + word_of_int 7, py + word_of_int (- 3))))
         (Some [(46541, 0)]))
      (0 + 7, 0 + - 3, 200, 200) = Inl ValueError"
    by blast
  then have e': "calculate_logic (Some [(46548, - 3)]) (7, - 3, 200, 200) = Inl ValueError"
    by simp
  show ?thesis using rng ne c lt moved e e' by blast
qed

section \<open>The claim about process\_frame\<close>

text \<open>
  Maxima of finite sets of reals with one more element, and what \<^verbatim>\<open>max_by\<close>
  returns: the first element whose key is the greatest.
\<close>

lemma Max_insert_gt:
  fixes a b :: real
  assumes "finite A" and "a < b"
  shows "Max (insert a (insert b A)) = Max (insert b A)"
proof -
  have "Max (insert a (insert b A)) = max a (Max (insert b A))"
    using assms(1) by (intro Max_insert) simp_all
  moreover have "b \<le> Max (insert b A)"
    using assms(1) by (intro Max_ge) simp_all
  ultimately show ?thesis using assms(2) by linarith
qed

lemma Max_insert_le:
  fixes a b :: real
  assumes "finite A" and "\<not> a < b"
  shows "Max (insert a (insert b A)) = Max (insert a A)"
proof -
  have "Max (insert b (insert a A)) = max b (Max (insert a A))"
    using assms(1) by (intro Max_insert) simp_all
  moreover have "a \<le> Max (insert a A)"
    using assms(1) by (intro Max_ge) simp_all
  ultimately have "Max (insert b (insert a A)) = Max (insert a A)"
    using assms(2) by linarith
  then show ?thesis by (simp only: insert_commute [of a b])
qed

lemma max_by_inv:
  "max_by key best xs = r \<Longrightarrow>
     key r = Max (insert (key best) (key ` set xs)) \<and>
     (key r = key best \<longrightarrow> r = best) \<and>
     (key best < key r \<longrightarrow> find (\<lambda>c. key c = key r) xs = Some r)"
proof (induction xs arbitrary: best)
  case Nil
  then show ?case by simp
next
  case (Cons x xs)
  have fin: "finite (key ` set xs)" by simp
  show ?case
  proof (cases "key best < key x")
    case True
    with Cons.prems have run: "max_by key x xs = r" by simp
    note ih = Cons.IH [OF run]
    have ge: "key x \<le> key r"
      using ih fin by (simp only:) (intro Max_ge, simp_all)
    have m1: "key r = Max (insert (key best) (key ` set (x # xs)))"
      using ih Max_insert_gt [OF fin True] by simp
    have m0: "key r \<noteq> key best" using ge True by simp
    have m3: "find (\<lambda>c. key c = key r) (x # xs) = Some r"
    proof (cases "key r = key x")
      case True
      then have "r = x" using ih by blast
      then show ?thesis by simp
    next
      case False
      then have "key x < key r" using ge by simp
      then have "find (\<lambda>c. key c = key r) xs = Some r" using ih by blast
      then show ?thesis using False by simp
    qed
    show ?thesis using m1 m0 m3 by blast
  next
    case False
    with Cons.prems have run: "max_by key best xs = r" by simp
    note ih = Cons.IH [OF run]
    have m1: "key r = Max (insert (key best) (key ` set (x # xs)))"
      using ih Max_insert_le [OF fin False] by simp
    have m3: "key best < key r \<longrightarrow> find (\<lambda>c. key c = key r) (x # xs) = Some r"
    proof
      assume less: "key best < key r"
      then have "key x \<noteq> key r" using False by simp
      moreover have "find (\<lambda>c. key c = key r) xs = Some r" using ih less by blast
      ultimately show "find (\<lambda>c. key c = key r) (x # xs) = Some r" by simp
    qed
    show ?thesis using m1 m3 ih by blast
  qed
qed

lemma max_by_first:
  "key (max_by key c cs) = Max (key ` set (c # cs)) \<and>
   find (\<lambda>x. key x = Max (key ` set (c # cs))) (c # cs) = Some (max_by key c cs)"
proof -
  let ?r = "max_by key c cs"
  have inv: "key ?r = Max (insert (key c) (key ` set cs)) \<and>
     (key ?r = key c \<longrightarrow> ?r = c) \<and>
     (key c < key ?r \<longrightarrow> find (\<lambda>x. key x = key ?r) cs = Some ?r)"
    by (rule max_by_inv) simp
  then have k: "key ?r = Max (key ` set (c # cs))" by simp
  have ge: "key c \<le> key ?r"
    using inv by (simp only:) (intro Max_ge, simp_all)
  have "find (\<lambda>x. key x = key ?r) (c # cs) = Some ?r"
  proof (cases "key ?r = key c")
    case True
    then have "?r = c" using inv by blast
    then show ?thesis by simp
  next
    case False
    then have "key c < key ?r" using ge by simp
    then have "find (\<lambda>x. key x = key ?r) cs = Some ?r" using inv by blast
    then show ?thesis using False by simp
  qed
  then show ?thesis using k by simp
qed

text \<open>
  Claim C5 as stated fails at the threshold: the frame whose only contour has area
  exactly 3000 (the 60 by 50 rectangle) has contours, its largest area is not below 3000,
  and \<^verbatim>\<open>process_frame\<close> returns \<^verbatim>\<open>None\<close>, since line 56 tests
  \<^verbatim>\<open>cv2.contourArea(max_contour) > 3000\<close>.
\<close>

theorem process_frame_area_counterexample:
  "find_contours \<lparr>flip = id, shape = (\<lambda>f. (480, 640)), find_contours = (\<lambda>f. f),
      contourArea = (\<lambda>c. 3000), convexHull = (\<lambda>c. c)\<rparr>
     [[(0, 0), (60, 0), (60, 50), (0, 50)]] \<noteq> [] \<and>
   \<not> Max (contourArea \<lparr>flip = id, shape = (\<lambda>f. (480, 640)), find_contours = (\<lambda>f. f),
            contourArea = (\<lambda>c. 3000), convexHull = (\<lambda>c. c)\<rparr>
          ` set [[(0, 0), (60, 0), (60, 50), (0, 50)]]) < 3000 \<and>
   process_frame \<lparr>flip = id, shape = (\<lambda>f. (480, 640)), find_contours = (\<lambda>f. f),
      contourArea = (\<lambda>c. 3000), convexHull = (\<lambda>c. c)\<rparr>
     [[(0, 0), (60, 0), (60, 50), (0, 50)]] = None"
  by (simp add: process_frame_def)

text \<open>
  Claim C5, amended: \<^verbatim>\<open>process_frame\<close> returns \<^verbatim>\<open>None\<close> exactly when no contour is
  found in the mask or the area of the contour of greatest area is at most 3000;
  otherwise it returns the convex hull of the first contour of greatest area. A greatest
  area of exactly 3000 is rejected.
\<close>

theorem process_frame_none_iff:
  "(process_frame cv frame = None \<longleftrightarrow>
      find_contours cv frame = [] \<or>
      Max (contourArea cv ` set (find_contours cv frame)) \<le> 3000) \<and>
   (find_contours cv frame \<noteq> [] \<and> 3000 < Max (contourArea cv ` set (find_contours cv frame)) \<longrightarrow>
      (\<exists>c. find (\<lambda>x. contourArea cv x = Max (contourArea cv ` set (find_contours cv frame)))
               (find_contours cv frame) = Some c \<and>
           process_frame cv frame = Some (convexHull cv c)))"
proof (cases "find_contours cv frame")
  case Nil
  then show ?thesis by (simp add: process_frame_def)
next
  case (Cons c cs)
  let ?r = "max_by (contourArea cv) c cs"
  let ?M = "Max (contourArea cv ` set (c # cs))"
  have k: "contourArea cv ?r = ?M"
    and f: "find (\<lambda>x. contourArea cv x = ?M) (c # cs) = Some ?r"
    using max_by_first [of "contourArea cv" c cs] by blast+
  have pf: "process_frame cv frame = (if 3000 < ?M then Some (convexHull cv ?r) else None)"
    using Cons k by (simp add: process_frame_def Let_def del: Max_less_iff Max_insert)
  have a: "process_frame cv frame = None \<longleftrightarrow> ?M \<le> 3000"
    by (simp only: pf) (simp del: Max_less_iff Max_le_iff Max_insert add: not_less)
  have b: "3000 < ?M \<longrightarrow> (\<exists>c'. find (\<lambda>x. contourArea cv x = ?M) (c # cs) = Some c' \<and>
      process_frame cv frame = Some (convexHull cv c'))"
    using f pf by (simp del: Max_less_iff Max_insert)
  show ?thesis using a b by (simp only: Cons) blast
qed

theorem process_frame_none_iff_witness:
  "find_contours \<lparr>flip = id, shape = (\<lambda>f. (480, 640)), find_contours = (\<lambda>f. f),
      contourArea = (\<lambda>c. 1000 * real (length c)), convexHull = (\<lambda>c. c)\<rparr>
     [[(0, 0), (1, 0), (0, 1)], [(0, 0), (9, 0), (9, 9), (0, 9)]] \<noteq> [] \<and>
   3000 < Max (contourArea \<lparr>flip = id, shape = (\<lambda>f. (480, 640)), find_contours = (\<lambda>f. f),
      contourArea = (\<lambda>c. 1000 * real (length c)), convexHull = (\<lambda>c. c)\<rparr>
     ` set [[(0, 0), (1, 0), (0, 1)], [(0, 0), (9, 0), (9, 9), (0, 9)]]) \<and>
   process_frame \<lparr>flip = id, shape = (\<lambda>f. (480, 640)), find_contours = (\<lambda>f. f),
      contourArea = (\<lambda>c. 1000 * real (length c)), convexHull = (\<lambda>c. c)\<rparr>
     [[(0, 0), (1, 0), (0, 1)], [(0, 0), (9, 0), (9, 9), (0, 9)]]
     = Some [(0, 0), (9, 0), (9, 9), (0, 9)] \<and>
   process_frame \<lparr>flip = id, shape = (\<lambda>f. (480, 640)), find_contours = (\<lambda>f. f),
      contourArea = (\<lambda>c. 1000 * real (length c)), convexHull = (\<lambda>c. c)\<rparr>
     [[(0, 0), (1, 0), (0, 1)]] = None"
proof -
  let ?cv = "\<lparr>flip = id, shape = (\<lambda>f. (480, 640)), find_contours = (\<lambda>f. f),
      contourArea = (\<lambda>c. 1000 * real (length c)), convexHull = (\<lambda>c. c)\<rparr>
      :: (point list list, point list) cv2"
  let ?a = "[(0, 0), (1, 0), (0, 1)] :: point list"
  let ?b = "[(0, 0), (9, 0), (9, 9), (0, 9)] :: point list"
  have ne: "find_contours ?cv [?a, ?b] \<noteq> []" by simp
  have mx: "Max (contourArea ?cv ` set (find_contours ?cv [?a, ?b])) = 4000" by simp
  have big: "3000 < Max (contourArea ?cv ` set (find_contours ?cv [?a, ?b]))"
    using mx by linarith
  have first: "find (\<lambda>x. contourArea ?cv x = Max (contourArea ?cv ` set (find_contours ?cv [?a, ?b])))
      (find_contours ?cv [?a, ?b]) = Some ?b"
    by (simp only: mx) simp
  from process_frame_none_iff [of ?cv "[?a, ?b]"] ne big
  obtain c where c: "find (\<lambda>x. contourArea ?cv x = Max (contourArea ?cv ` set (find_contours ?cv [?a, ?b])))
      (find_contours ?cv [?a, ?b]) = Some c" "process_frame ?cv [?a, ?b] = Some (convexHull ?cv c)"
    by blast
  from c(1) first have "c = ?b" by simp
  with c(2) have hull: "process_frame ?cv [?a, ?b] = Some ?b" by simp
  have small: "Max (contourArea ?cv ` set (find_contours ?cv [?a])) \<le> 3000" by simp
  with process_frame_none_iff [of ?cv "[?a]"] have none: "process_frame ?cv [?a] = None"
    by blast
  have ne': "find_contours ?cv [?a, ?b] \<noteq> []" by simp
  have big': "3000 < Max (contourArea ?cv ` set [?a, ?b])" using big by simp
  show ?thesis using ne' big' hull none by simp
qed

section \<open>The claim about run\<close>

lemma run_iteration_zone:
  "run_iteration cv (Some z) frame = (Some z, z, calculate_logic (process_frame cv (flip cv frame)) z)"
  by (simp add: run_iteration_def Let_def)

lemma run_iteration_first:
  "run_iteration cv None frame =
     (Some (initial_zone (shape cv (flip cv frame))), initial_zone (shape cv (flip cv frame)),
      calculate_logic (process_frame cv (flip cv frame)) (initial_zone (shape cv (flip cv frame))))"
  by (simp add: run_iteration_def Let_def)

lemma run_loop_fixed:
  "pass \<in> set (run_loop cv (Some z) answers) \<Longrightarrow> fst pass = z"
proof (induction answers)
  case Nil
  then show ?case by simp
next
  case (Cons a answers)
  obtain ret frame key where a: "a = ((ret, frame), key)"
    by (cases a) auto
  let ?out = "calculate_logic (process_frame cv (flip cv frame)) z"
  show ?case
  proof (cases ret)
    case False
    with Cons.prems a show ?thesis by simp
  next
    case True
    with Cons.prems a
    have "pass = (z, ?out) \<or> pass \<in> set (run_loop cv (Some z) answers)"
      by (auto simp add: run_iteration_zone split: sum.splits if_splits)
    then show ?thesis using Cons.IH by auto
  qed
qed

text \<open>
  Claim C6: the danger zone is computed once, from the dimensions of the first frame
  processed, and no later pass of the main loop assigns another value, whatever the
  dimensions of the later frames. Every pass of \<^verbatim>\<open>run\<close> uses the zone of the first
  frame; a pass that starts with the attribute set leaves it as it is.
\<close>

theorem run_zone_fixed:
  "run cv (((True, frame), key) # later) \<noteq> [] \<and>
   fst (hd (run cv (((True, frame), key) # later))) = initial_zone (shape cv (flip cv frame)) \<and>
   (\<forall>pass \<in> set (run cv (((True, frame), key) # later)).
      fst pass = initial_zone (shape cv (flip cv frame))) \<and>
   fst (run_iteration cv None frame) = Some (initial_zone (shape cv (flip cv frame))) \<and>
   fst (run_iteration cv (Some z) frame') = Some z \<and>
   (\<forall>pass \<in> set (run_loop cv (Some z) answers). fst pass = z)"
proof -
  let ?z = "initial_zone (shape cv (flip cv frame))"
  let ?first = "(?z, calculate_logic (process_frame cv (flip cv frame)) ?z)"
  have unfold: "\<exists>rest. run cv (((True, frame), key) # later) = ?first # rest \<and>
      (rest = [] \<or> rest = run_loop cv (Some ?z) later)"
    by (simp add: run_def run_iteration_first split: sum.splits)
  then obtain rest where rest: "run cv (((True, frame), key) # later) = ?first # rest"
    "rest = [] \<or> rest = run_loop cv (Some ?z) later"
    by blast
  have a: "run cv (((True, frame), key) # later) \<noteq> []"
    by (simp only: rest(1)) simp
  have b: "fst (hd (run cv (((True, frame), key) # later))) = ?z"
    by (simp only: rest(1)) simp
  have c: "fst pass = ?z" if "pass \<in> set (run cv (((True, frame), key) # later))" for pass
  proof -
    from that rest have "pass = ?first \<or> pass \<in> set (run_loop cv (Some ?z) later)"
      by auto
    then show ?thesis using run_loop_fixed [of pass cv ?z later] by auto
  qed
  have d: "fst (run_iteration cv None frame) = Some ?z"
    by (simp add: run_iteration_first)
  have e: "fst (run_iteration cv (Some z) frame') = Some z"
    by (simp add: run_iteration_zone)
  have f: "fst pass = z" if "pass \<in> set (run_loop cv (Some z) answers)" for pass
    using that by (rule run_loop_fixed)
  show ?thesis using a b c d e f by blast
qed

text \<open>
  Three frames of 640 by 480, 1280 by 720 and 1920 by 1080: the second and the third
  pass use the zone (416, 120, 200, 200) of the first frame, not (832, 180, 200, 200).
\<close>

theorem run_zone_fixed_witness:
  "length (run \<lparr>flip = id, shape = (\<lambda>f. f), find_contours = (\<lambda>f. []),
       contourArea = (\<lambda>c :: point list. 0), convexHull = (\<lambda>c. c)\<rparr>
     [((True, (480, 640)), - 1), ((True, (720, 1280)), - 1), ((True, (1080, 1920)), 113)]) = 3 \<and>
   initial_zone (480, 640) = (416, 120, 200, 200) \<and>
   initial_zone (720, 1280) = (832, 180, 200, 200) \<and>
   fst (run \<lparr>flip = id, shape = (\<lambda>f. f), find_contours = (\<lambda>f. []),
       contourArea = (\<lambda>c :: point list. 0), convexHull = (\<lambda>c. c)\<rparr>
     [((True, (480, 640)), - 1), ((True, (720, 1280)), - 1), ((True, (1080, 1920)), 113)] ! 1)
     = (416, 120, 200, 200) \<and>
   fst (run \<lparr>flip = id, shape = (\<lambda>f. f), find_contours = (\<lambda>f. []),
       contourArea = (\<lambda>c :: point list. 0), convexHull = (\<lambda>c. c)\<rparr>
     [((True, (480, 640)), - 1), ((True, (720, 1280)), - 1), ((True, (1080, 1920)), 113)] ! 2)
     = (416, 120, 200, 200)"
proof -
  let ?cv = "\<lparr>flip = id, shape = (\<lambda>f. f), find_contours = (\<lambda>f. []),
       contourArea = (\<lambda>c :: point list. 0), convexHull = (\<lambda>c. c)\<rparr>
       :: (nat \<times> nat, point list) cv2"
  let ?later = "[((True, (720, 1280)), - 1), ((True, (1080, 1920)), 113)] :: ((bool \<times> nat \<times> nat) \<times> int) list"
  let ?run = "run ?cv (((True, (480, 640)), - 1) # ?later)"
  have len: "length ?run = 3"
    by (simp add: run_def run_iteration_def process_frame_def calculate_logic_def Let_def)
  have z1: "initial_zone (480, 640) = (416, 120, 200, 200)"
    by (simp add: initial_zone_def)
  have z2: "initial_zone (720, 1280) = (832, 180, 200, 200)"
    by (simp add: initial_zone_def)
  have all: "\<forall>pass \<in> set ?run. fst pass = initial_zone (shape ?cv (flip ?cv (480, 640)))"
    using run_zone_fixed [of ?cv "(480, 640)" "- 1" ?later] by blast
  have l1: "1 < length ?run" and l2: "2 < length ?run" using len by linarith+
  have m1: "?run ! 1 \<in> set ?run" using l1 by (rule nth_mem)
  have m2: "?run ! 2 \<in> set ?run" using l2 by (rule nth_mem)
  have p1: "fst (?run ! 1) = (416, 120, 200, 200)"
    using all m1 z1 by simp
  have p2: "fst (?run ! 2) = (416, 120, 200, 200)"
    using all m2 z1 by simp
  show ?thesis using len z1 z2 p1 p2 by blast
qed

end
